theory Spec2Isabelle
  imports Main "HOL-Library.Word"
begin

section \<open>Strings of the host language\<close>

text \<open>
  The retrieval core (\<^verbatim>\<open>src/rag.ts\<close>) works on JavaScript strings: finite sequences of
  16-bit UTF-16 code units. \<^verbatim>\<open>length\<close> counts code units, and the regular expression
  and \<^verbatim>\<open>trim\<close> classify single code units.
\<close>

type_synonym code_unit = "16 word"
type_synonym jsstring = "code_unit list"

definition to_js :: "string \<Rightarrow> jsstring" where
  \<comment> \<open>an ASCII literal as a JavaScript string\<close>
  "to_js s = map (\<lambda>c. of_nat (of_char c)) s"

definition is_line_terminator :: "code_unit \<Rightarrow> bool" where
  \<comment> \<open>ECMAScript LineTerminator: LF, CR, LS, PS; what \<^verbatim>\<open>^\<close> looks behind for under flag m\<close>
  "is_line_terminator c \<longleftrightarrow> c = 0x0A \<or> c = 0x0D \<or> c = 0x2028 \<or> c = 0x2029"

definition is_white_space :: "code_unit \<Rightarrow> bool" where
  \<comment> \<open>ECMAScript WhiteSpace: TAB, VT, FF, ZWNBSP and the Unicode space separators\<close>
  "is_white_space c \<longleftrightarrow>
     c = 0x09 \<or> c = 0x0B \<or> c = 0x0C \<or> c = 0x20 \<or> c = 0xA0 \<or> c = 0x1680 \<or>
     (0x2000 \<le> c \<and> c \<le> 0x200A) \<or> c = 0x202F \<or> c = 0x205F \<or> c = 0x3000 \<or> c = 0xFEFF"

definition is_space :: "code_unit \<Rightarrow> bool" where
  \<comment> \<open>the class \<^verbatim>\<open>\s\<close>, which is also what \<^verbatim>\<open>String.prototype.trim\<close> strips\<close>
  "is_space c \<longleftrightarrow> is_white_space c \<or> is_line_terminator c"

definition hash :: code_unit where
  "hash = 0x23"

definition trim :: "jsstring \<Rightarrow> jsstring" where
  "trim s = rev (dropWhile is_space (rev (dropWhile is_space s)))"


section \<open>The chunker\<close>

text \<open>
  \<^verbatim>\<open>content.split(/^#+\s/gm).map(c => c.trim()).filter(c => c.length > 50)\<close>

  \<^verbatim>\<open>split\<close> walks the string from left to right. At each index it tries the pattern
  anchored there; on a match the text gathered so far becomes a segment and the walk
  resumes behind the match, otherwise the code unit joins the current segment. The
  pattern has no capture group, so nothing else enters the result, and it cannot match
  the empty string, so the empty input gives the single segment \<^verbatim>\<open>""\<close>.
\<close>

definition at_line_start :: "code_unit option \<Rightarrow> bool" where
  \<comment> \<open>\<^verbatim>\<open>^\<close> under flag m: index 0, or the code unit before is a line terminator\<close>
  "at_line_start prev = (case prev of None \<Rightarrow> True | Some p \<Rightarrow> is_line_terminator p)"

definition match_header :: "jsstring \<Rightarrow> (code_unit \<times> jsstring) option" where
  \<comment> \<open>\<^verbatim>\<open>#+\s\<close> anchored at the head of the text: the greedy run of hashes, then one
      \<^verbatim>\<open>\s\<close>; giving hashes back cannot help, a hash is not \<^verbatim>\<open>\s\<close>. Returns the
      matched \<^verbatim>\<open>\s\<close> and the text behind the match.\<close>
  "match_header s =
     (case dropWhile (\<lambda>c. c = hash) s of
        [] \<Rightarrow> None
      | w # r \<Rightarrow> if takeWhile (\<lambda>c. c = hash) s \<noteq> [] \<and> is_space w then Some (w, r) else None)"

function js_split_aux :: "code_unit option \<Rightarrow> jsstring \<Rightarrow> jsstring \<Rightarrow> jsstring list" where
  "js_split_aux prev acc [] = [acc]"
| "js_split_aux prev acc (c # cs) =
     (case (if at_line_start prev then match_header (c # cs) else None) of
        Some (w, r) \<Rightarrow> acc # js_split_aux (Some w) [] r
      | None \<Rightarrow> js_split_aux (Some c) (acc @ [c]) cs)"
  by pat_completeness auto
termination
proof (relation "measure (\<lambda>(prev, acc, s). length s)")
  show "wf (measure (\<lambda>(prev, acc, s). length s))"
    by simp
next
  fix prev :: "code_unit option" and acc cs :: jsstring and c w :: code_unit
    and x2 :: "code_unit \<times> jsstring" and r :: jsstring
  assume m: "(if at_line_start prev then match_header (c # cs) else None) = Some x2"
    and x: "(w, r) = x2"
  from m x have "match_header (c # cs) = Some (w, r)"
    by (simp split: if_splits)
  then have "dropWhile (\<lambda>c. c = hash) (c # cs) = w # r"
    unfolding match_header_def by (simp split: list.splits if_splits)
  moreover have "length (dropWhile (\<lambda>c. c = hash) (c # cs)) \<le> length (c # cs)"
    by (rule length_dropWhile_le)
  ultimately have "length r < length (c # cs)"
    by simp
  then show "((Some w, [], r), (prev, acc, c # cs)) \<in> measure (\<lambda>(prev, acc, s). length s)"
    by simp
next
  fix prev :: "code_unit option" and acc cs :: jsstring and c :: code_unit
  show "((Some c, acc @ [c], cs), (prev, acc, c # cs)) \<in> measure (\<lambda>(prev, acc, s). length s)"
    by simp
qed

definition js_split :: "jsstring \<Rightarrow> jsstring list" where
  "js_split s = js_split_aux None [] s"

definition chunk :: "jsstring \<Rightarrow> jsstring list" where
  "chunk content = filter (\<lambda>c. 50 < length c) (map trim (js_split content))"

subsection \<open>The chunker as the specification words it\<close>

text \<open>
  The specification describes the same computation by lines: the text is cut into lines,
  a line that begins with one or more hashes followed by a whitespace character is a
  header line, and every header line opens a new segment (its marker is not part of the
  segment). These definitions follow that wording; they are compared with \<open>js_split\<close>
  below.
\<close>

fun lines_of :: "jsstring \<Rightarrow> jsstring list" where
  \<comment> \<open>the lines of a text, each with its line terminator; the last one may lack it\<close>
  "lines_of [] = []"
| "lines_of (c # cs) =
     (if is_line_terminator c then [c] # lines_of cs
      else (case lines_of cs of [] \<Rightarrow> [[c]] | l # ls \<Rightarrow> (c # l) # ls))"

definition header_line :: "jsstring \<Rightarrow> jsstring option" where
  \<comment> \<open>a line "beginning with one or more hash markers followed by whitespace": what
      stands on it behind the marker\<close>
  "header_line l =
     (case l of
        [] \<Rightarrow> None
      | c # cs \<Rightarrow>
          if c \<noteq> hash then None
          else (case dropWhile (\<lambda>x. x = hash) cs of
                  [] \<Rightarrow> None
                | w # r \<Rightarrow> if is_space w then Some r else None))"

fun segments_spec :: "jsstring \<Rightarrow> jsstring list \<Rightarrow> jsstring list" where
  \<comment> \<open>\<open>cur\<close> is the segment being gathered, the list holds the lines still to come\<close>
  "segments_spec cur [] = [cur]"
| "segments_spec cur (l # ls) =
     (case header_line l of
        Some body \<Rightarrow> cur # segments_spec body ls
      | None \<Rightarrow> segments_spec (cur @ l) ls)"

definition header_segments :: "jsstring \<Rightarrow> jsstring list" where
  "header_segments content = segments_spec [] (lines_of content)"

definition chunk_spec :: "jsstring \<Rightarrow> jsstring list" where
  \<comment> \<open>"segments shorter than a minimum length (50 characters) are dropped"\<close>
  "chunk_spec content = filter (\<lambda>seg. \<not> length seg < 50) (map trim (header_segments content))"



section \<open>Rows, results and errors\<close>

text \<open>
  A stored row is \<^verbatim>\<open>{ vector, text, source }\<close>; a nearest-neighbour query returns rows
  with their \<^verbatim>\<open>_distance\<close>; \<^verbatim>\<open>search\<close> returns \<^verbatim>\<open>{ text, source, score }\<close>. The
  vector type \<open>'v\<close> and the distance type \<open>'d\<close> stay abstract: the embedding model and
  the metric belong to the libraries.
\<close>

record passage =
  text' :: jsstring
  source :: jsstring

record 'v row = passage +
  vector :: 'v

record ('v, 'd) hit = "'v row" +
  distance :: 'd

record 'd search_result = passage +
  score :: 'd

type_synonym 'v tables = "(jsstring \<times> 'v row list) list"

text \<open>
  What a collaborator (LanceDB, the transformers pipeline, glob, the file system) can
  throw, and what a method of \<^verbatim>\<open>RAGSystem\<close> can end with: its own two
  \<^verbatim>\<open>new Error(...)\<close>, a collaborator's exception passed on, or the \<^verbatim>\<open>TypeError\<close>
  of calling through a field that is still \<^verbatim>\<open>undefined\<close>.
\<close>

datatype fault = TableNotFound | TableExists | IOFailure | ModelFailure | InvalidInput

datatype error =
    NotReady    \<comment> \<open>\<^verbatim>\<open>Error("RAG system is not ready.")\<close>\<close>
  | NoContent   \<comment> \<open>\<^verbatim>\<open>Error("No content found to ingest. ...")\<close>\<close>
  | Thrown fault
  | TypeError

datatype 'v call = DropTable jsstring | CreateTable jsstring "'v row list"

record ('v, 'd) env =
  lancedb_connect :: "fault option"
  load_pipeline :: "fault option"
  embed :: "jsstring \<Rightarrow> fault + 'v"
  glob_md :: "fault + jsstring list"
  read_file :: "jsstring \<Rightarrow> fault + jsstring"
  table_names :: "'v tables \<Rightarrow> fault + jsstring list"
  drop_table :: "jsstring \<Rightarrow> 'v tables \<Rightarrow> fault option \<times> 'v tables"
  create_table :: "jsstring \<Rightarrow> 'v row list \<Rightarrow> 'v tables \<Rightarrow> fault option \<times> 'v tables"
  open_table :: "jsstring \<Rightarrow> 'v tables \<Rightarrow> fault + 'v row list"
  nearest :: "'v row list \<Rightarrow> 'v \<Rightarrow> fault + ('v, 'd) hit list"

text \<open>
  The fields of \<open>env\<close> are the awaited calls of \<^verbatim>\<open>rag.ts\<close>, in order of appearance:
  \<^verbatim>\<open>lancedb.connect(DB_PATH)\<close>, \<^verbatim>\<open>pipeline('feature-extraction', ...)\<close>,
  \<^verbatim>\<open>Array.from((await this.embedder(text, {pooling, normalize})).data)\<close>,
  \<^verbatim>\<open>glob('**/*.md', {cwd: DOCS_DIR})\<close>, \<^verbatim>\<open>fs.readFileSync(path.join(DOCS_DIR, file), 'utf-8')\<close>,
  \<^verbatim>\<open>db.tableNames()\<close>, \<^verbatim>\<open>db.dropTable(name)\<close>, \<^verbatim>\<open>db.createTable(name, data)\<close>,
  \<^verbatim>\<open>db.openTable(name)\<close> (the handle is modelled by the rows it reads) and the ranking
  behind \<^verbatim>\<open>table.vectorSearch(v)\<close>: the rows of the table with their distances to
  \<^verbatim>\<open>v\<close>, nearest first. \<open>None\<close> and \<open>Inr\<close> are normal returns, \<open>Some f\<close> and
  \<open>Inl f\<close> a thrown \<open>f\<close>.
\<close>

record rag =
  db :: bool         \<comment> \<open>\<^verbatim>\<open>this.db\<close> holds a connection\<close>
  embedder :: bool   \<comment> \<open>\<^verbatim>\<open>this.embedder\<close> holds the loaded pipeline\<close>
  ready :: bool

record 'v world =
  store :: "'v tables"
  journal :: "('v call \<times> 'v tables) list"
    \<comment> \<open>every mutating store call made so far, with the tables it left behind\<close>

definition new_rag :: rag where
  "new_rag = \<lparr>db = False, embedder = False, ready = False\<rparr>"

definition documentation :: jsstring where
  "documentation = to_js ''documentation''"


section \<open>The retrieval system\<close>

definition initialize :: "('v, 'd) env \<Rightarrow> rag \<Rightarrow> 'v world \<Rightarrow> (error + unit) \<times> rag" where
  "initialize env st w =
     (case lancedb_connect env of
        Some f \<Rightarrow> (Inl (Thrown f), st)
      | None \<Rightarrow>
          let st1 = st\<lparr>db := True\<rparr> in
          (case load_pipeline env of
             Some f \<Rightarrow> (Inl (Thrown f), st1)
           | None \<Rightarrow>
               let st2 = st1\<lparr>embedder := True\<rparr> in
               (case table_names env (store w) of
                  Inl f \<Rightarrow> (Inl (Thrown f), st2)
                | Inr tableNames \<Rightarrow>
                    if documentation \<in> set tableNames then (Inr (), st2\<lparr>ready := True\<rparr>)
                    else (Inr (), st2))))"

definition isReady :: "rag \<Rightarrow> bool" where
  "isReady st = ready st"

definition to_result :: "('v, 'd) hit \<Rightarrow> 'd search_result" where
  "to_result r = \<lparr>text' = text' r, source = source r, score = distance r\<rparr>"

definition lance_limit :: "int \<Rightarrow> fault + nat" where
  \<comment> \<open>\<^verbatim>\<open>.limit(k)\<close> of a LanceDB query: the binding reads the JavaScript number as an
      unsigned 32-bit integer, and a query with \<^verbatim>\<open>k = 0\<close> is refused ("k must be
      positive")\<close>
  "lance_limit k = (let n = nat (k mod 2 ^ 32) in if n = 0 then Inl InvalidInput else Inr n)"

definition search ::
  "('v, 'd) env \<Rightarrow> jsstring \<Rightarrow> int \<Rightarrow> rag \<Rightarrow> 'v world \<Rightarrow> error + 'd search_result list" where
  \<comment> \<open>a caller that leaves \<^verbatim>\<open>limit\<close> out passes 3\<close>
  "search env query limit st w =
     (if \<not> ready st then Inl NotReady
      else if \<not> embedder st then Inl TypeError
      else (case embed env query of
              Inl f \<Rightarrow> Inl (Thrown f)
            | Inr queryVector \<Rightarrow>
                if \<not> db st then Inl TypeError
                else (case open_table env documentation (store w) of
                        Inl f \<Rightarrow> Inl (Thrown f)
                      | Inr table \<Rightarrow>
                          (case lance_limit limit of
                             Inl f \<Rightarrow> Inl (Thrown f)
                           | Inr k \<Rightarrow>
                               (case nearest env table queryVector of
                                  Inl f \<Rightarrow> Inl (Thrown f)
                                | Inr ranked \<Rightarrow> Inr (map to_result (take k ranked)))))))"

text \<open>The two loops of \<^verbatim>\<open>ingest\<close>; \<open>data\<close> is the array the rows are pushed onto.\<close>

fun embed_chunks ::
  "('v, 'd) env \<Rightarrow> jsstring \<Rightarrow> 'v row list \<Rightarrow> jsstring list \<Rightarrow> fault + 'v row list" where
  "embed_chunks env file data [] = Inr data"
| "embed_chunks env file data (c # chunks) =
     (case embed env c of
        Inl f \<Rightarrow> Inl f
      | Inr v \<Rightarrow> embed_chunks env file (data @ [\<lparr>text' = c, source = file, vector = v\<rparr>]) chunks)"

fun read_files :: "('v, 'd) env \<Rightarrow> 'v row list \<Rightarrow> jsstring list \<Rightarrow> fault + 'v row list" where
  "read_files env data [] = Inr data"
| "read_files env data (file # files) =
     (case read_file env file of
        Inl f \<Rightarrow> Inl f
      | Inr content \<Rightarrow>
          (case embed_chunks env file data (chunk content) of
             Inl f \<Rightarrow> Inl f
           | Inr data' \<Rightarrow> read_files env data' files))"

definition gather :: "('v, 'd) env \<Rightarrow> fault + 'v row list" where
  \<comment> \<open>from the \<^verbatim>\<open>glob\<close> call to the end of the loop over the files\<close>
  "gather env = (case glob_md env of Inl f \<Rightarrow> Inl f | Inr files \<Rightarrow> read_files env [] files)"

definition replace_table ::
  "('v, 'd) env \<Rightarrow> 'v row list \<Rightarrow> 'v world \<Rightarrow> fault option \<times> 'v world" where
  \<comment> \<open>\<^verbatim>\<open>try { await dropTable } catch (e) { }\<close> and then \<^verbatim>\<open>await createTable\<close>: whatever
      \<^verbatim>\<open>dropTable\<close> throws is discarded, what \<^verbatim>\<open>createTable\<close> throws is returned\<close>
  "replace_table env data w =
     (let (dropped, s1) = drop_table env documentation (store w);
          w1 = w\<lparr>store := s1, journal := journal w @ [(DropTable documentation, s1)]\<rparr>;
          (created, s2) = create_table env documentation data s1;
          w2 = w1\<lparr>store := s2, journal := journal w1 @ [(CreateTable documentation data, s2)]\<rparr>
      in (created, w2))"

definition ingest :: "('v, 'd) env \<Rightarrow> rag \<Rightarrow> 'v world \<Rightarrow> (error + nat) \<times> rag \<times> 'v world" where
  "ingest env st w =
     (case (if db st then None else lancedb_connect env) of
        Some f \<Rightarrow> (Inl (Thrown f), st, w)
      | None \<Rightarrow>
          let st1 = st\<lparr>db := True\<rparr> in
          (case (if embedder st1 then None else load_pipeline env) of
             Some f \<Rightarrow> (Inl (Thrown f), st1, w)
           | None \<Rightarrow>
               let st2 = st1\<lparr>embedder := True\<rparr> in
               (case gather env of
                  Inl f \<Rightarrow> (Inl (Thrown f), st2, w)
                | Inr data \<Rightarrow>
                    if length data = 0 then (Inl NoContent, st2, w)
                    else (case replace_table env data w of
                            (Some f, w') \<Rightarrow> (Inl (Thrown f), st2, w')
                          | (None, w') \<Rightarrow> (Inr (length data), st2\<lparr>ready := True\<rparr>, w')))))"

text \<open>A process lifetime: the methods called on the one \<^verbatim>\<open>ragSystem\<close> object, each in
  the environment it meets.\<close>

datatype request = Initialize | IsReady | Search jsstring int | Ingest

fun step :: "('v, 'd) env \<Rightarrow> request \<Rightarrow> rag \<times> 'v world \<Rightarrow> rag \<times> 'v world" where
  "step env Initialize (st, w) = (snd (initialize env st w), w)"
| "step env IsReady (st, w) = (st, w)"
| "step env (Search query limit) (st, w) = (st, w)"
| "step env Ingest (st, w) = snd (ingest env st w)"

fun run :: "(('v, 'd) env \<times> request) list \<Rightarrow> rag \<times> 'v world \<Rightarrow> rag \<times> 'v world" where
  "run [] s = s"
| "run ((env, rq) # rest) s = run rest (step env rq s)"



section \<open>The store and a small corpus\<close>

text \<open>
  LanceDB is not part of the repository. These definitions give the behaviour the source
  relies on and the specification's store contract describes: \<^verbatim>\<open>dropTable\<close> throws
  when the table is missing (the source's comment: "Ignore if table doesn't exist"),
  \<^verbatim>\<open>createTable\<close> installs all rows in one step and throws when the name is taken,
  a vector query ranks the rows by their squared distance to the query vector.
\<close>

definition lance_table_names :: "'v tables \<Rightarrow> fault + jsstring list" where
  "lance_table_names s = Inr (map fst s)"

definition lance_drop :: "jsstring \<Rightarrow> 'v tables \<Rightarrow> fault option \<times> 'v tables" where
  "lance_drop name s =
     (if name \<in> set (map fst s) then (None, filter (\<lambda>t. fst t \<noteq> name) s)
      else (Some TableNotFound, s))"

definition lance_create :: "jsstring \<Rightarrow> 'v row list \<Rightarrow> 'v tables \<Rightarrow> fault option \<times> 'v tables" where
  "lance_create name rows s =
     (if name \<in> set (map fst s) then (Some TableExists, s) else (None, s @ [(name, rows)]))"

definition lance_open :: "jsstring \<Rightarrow> 'v tables \<Rightarrow> fault + 'v row list" where
  "lance_open name s = (case map_of s name of None \<Rightarrow> Inl TableNotFound | Some rows \<Rightarrow> Inr rows)"

definition with_distance :: "int \<Rightarrow> int row \<Rightarrow> (int, int) hit" where
  "with_distance v r =
     \<lparr>text' = text' r, source = source r, vector = vector r,
      distance = (vector r - v) * (vector r - v)\<rparr>"

definition lance_nearest :: "int row list \<Rightarrow> int \<Rightarrow> fault + (int, int) hit list" where
  "lance_nearest rows v = Inr (sort_key distance (map (with_distance v) rows))"


text \<open>
  A corpus on disk is a list of files, relative path and content, in the order
  \<^verbatim>\<open>glob\<close> reports them. \<open>corpus_env\<close> is the environment in which nothing fails:
  the files are readable, the store behaves as above, and the embedding is a fixed
  function of the text (here its length, a stand-in for the model).
\<close>

definition corpus_env :: "(jsstring \<times> jsstring) list \<Rightarrow> (int, int) env" where
  "corpus_env files =
     \<lparr>lancedb_connect = None,
      load_pipeline = None,
      embed = (\<lambda>t. Inr (int (length t))),
      glob_md = Inr (map fst files),
      read_file = (\<lambda>file. case map_of files file of None \<Rightarrow> Inl IOFailure | Some content \<Rightarrow> Inr content),
      table_names = lance_table_names,
      drop_table = lance_drop,
      create_table = lance_create,
      open_table = lance_open,
      nearest = lance_nearest\<rparr>"

definition guide_md :: jsstring where
  "guide_md = to_js ''guide.md''"

definition notes_md :: jsstring where
  "notes_md = to_js ''notes.md''"

definition scenario_guide :: jsstring where
  "scenario_guide = to_js ''# Setup\<newline>Run the installer and accept defaults.''"

definition scenario_notes :: jsstring where
  "scenario_notes = to_js ''# X\<newline>short''"

definition scenario_corpus :: "(jsstring \<times> jsstring) list" where
  "scenario_corpus = [(guide_md, scenario_guide), (notes_md, scenario_notes)]"

definition manual_guide :: jsstring where
  "manual_guide = to_js ''# Setup\<newline>Run the installer and accept all of the default settings.''"



definition manual_section :: jsstring where
  "manual_section = to_js ''Setup\<newline>Run the installer and accept all of the default settings.''"

definition manual_corpus :: "(jsstring \<times> jsstring) list" where
  "manual_corpus = [(guide_md, manual_guide), (notes_md, scenario_notes)]"

definition manual_rows :: "int row list" where
  "manual_rows = [\<lparr>text' = manual_section, source = guide_md, vector = 63\<rparr>]"

definition fifty :: jsstring where
  \<comment> \<open>a text of exactly 50 code units without a header line\<close>
  "fifty = to_js ''Run the installer, accept the defaults and reboot.''"



definition blank :: jsstring where
  "blank = to_js '' \<newline>  ''"




definition old_rows :: "int row list" where
  "old_rows = [\<lparr>text' = fifty, source = notes_md, vector = 50\<rparr>]"

definition empty_world :: "int world" where
  "empty_world = \<lparr>store = [], journal = []\<rparr>"

definition indexed_world :: "int world" where
  \<comment> \<open>a store that holds an index built earlier, by another process\<close>
  "indexed_world = \<lparr>store = [(documentation, old_rows)], journal = []\<rparr>"

definition manual_world :: "int world" where
  \<comment> \<open>what ingesting \<open>manual_corpus\<close> makes of \<open>empty_world\<close>\<close>
  "manual_world =
     \<lparr>store = [(documentation, manual_rows)],
      journal = [(DropTable documentation, []),
                 (CreateTable documentation manual_rows, [(documentation, manual_rows)])]\<rparr>"

definition library_world :: "int world" where
  \<comment> \<open>an index of two rows\<close>
  "library_world = \<lparr>store = [(documentation, old_rows @ manual_rows)], journal = []\<rparr>"

definition ready_rag :: rag where
  "ready_rag = \<lparr>db = True, embedder = True, ready = True\<rparr>"

definition failing_drop_env :: "(int, int) env" where
  \<comment> \<open>as \<open>corpus_env manual_corpus\<close>, but \<^verbatim>\<open>dropTable\<close> meets an I/O failure\<close>
  "failing_drop_env = (corpus_env manual_corpus)\<lparr>drop_table := (\<lambda>name s. (Some IOFailure, s))\<rparr>"

definition failing_create_env :: "(int, int) env" where
  \<comment> \<open>as \<open>corpus_env manual_corpus\<close>, but \<^verbatim>\<open>createTable\<close> meets an I/O failure\<close>
  "failing_create_env =
     (corpus_env manual_corpus)\<lparr>create_table := (\<lambda>name rows s. (Some IOFailure, s))\<rparr>"


section \<open>Properties of the chunker\<close>

subsection \<open>The header pattern\<close>

lemma hash_not_lt: "\<not> is_line_terminator hash"
  by (simp add: is_line_terminator_def hash_def)
lemma hash_not_space: "\<not> is_space hash"
  by (simp add: is_space_def is_white_space_def is_line_terminator_def hash_def)
lemma lt_is_space: "is_line_terminator c \<Longrightarrow> is_space c"
  by (simp add: is_space_def)

lemma match_header_intro:
  assumes "hs \<noteq> []" and "\<forall>h\<in>set hs. h = hash" and "is_space w"
  shows "match_header (hs @ w # x) = Some (w, x)"
proof -
  from assms(3) have "w \<noteq> hash" using hash_not_space by auto
  with assms(2) have "takeWhile (\<lambda>c. c = hash) (hs @ w # x) = hs"
    and "dropWhile (\<lambda>c. c = hash) (hs @ w # x) = w # x"
    by (simp_all add: takeWhile_append2 dropWhile_append2)
  with assms(1,3) show ?thesis by (simp add: match_header_def)
qed

lemma match_header_elim:
  assumes "match_header s = Some (w, r)"
  shows "\<exists>hs. s = hs @ w # r \<and> hs \<noteq> [] \<and> (\<forall>h\<in>set hs. h = hash) \<and> is_space w"
proof -
  let ?hs = "takeWhile (\<lambda>c. c = hash) s"
  from assms have d: "dropWhile (\<lambda>c. c = hash) s = w # r" and ne: "?hs \<noteq> []" and w: "is_space w"
    by (auto simp: match_header_def split: list.splits if_splits)
  have "s = ?hs @ dropWhile (\<lambda>c. c = hash) s" by simp
  with d have "s = ?hs @ w # r" by simp
  moreover have "\<forall>h\<in>set ?hs. h = hash" by (auto dest: set_takeWhileD)
  ultimately show ?thesis using ne w by blast
qed

lemma header_line_match: "header_line l = map_option snd (match_header l)"
proof (cases l)
  case Nil
  then show ?thesis by (simp add: header_line_def match_header_def)
next
  case (Cons c cs)
  show ?thesis
  proof (cases "c = hash")
    case True
    with Cons show ?thesis
      by (cases "dropWhile (\<lambda>x. x = hash) cs")
        (simp_all add: header_line_def match_header_def del: dropWhile_eq_Nil_conv)
  next
    case False
    with Cons show ?thesis by (simp add: header_line_def match_header_def)
  qed
qed

lemma match_header_append:
  assumes "\<exists>x\<in>set s. x \<noteq> hash"
  shows "match_header (s @ t) = map_option (\<lambda>(w, r). (w, r @ t)) (match_header s)"
proof -
  from assms obtain x where x: "x \<in> set s" "\<not> (x = hash)" by blast
  have t: "takeWhile (\<lambda>c. c = hash) (s @ t) = takeWhile (\<lambda>c. c = hash) s"
    using x by (rule takeWhile_append1)
  have d: "dropWhile (\<lambda>c. c = hash) (s @ t) = dropWhile (\<lambda>c. c = hash) s @ t"
    using x by (rule dropWhile_append1)
  from x have "dropWhile (\<lambda>c. c = hash) s \<noteq> []"
    by (auto simp: dropWhile_eq_Nil_conv)
  then show ?thesis
    unfolding match_header_def t d
    by (cases "dropWhile (\<lambda>c. c = hash) s") simp_all
qed

lemma lines_of_hashes:
  assumes "\<forall>h\<in>set hs. h = hash"
  shows "lines_of (hs @ w # r) =
           (case lines_of (w # r) of [] \<Rightarrow> [] | l # ls \<Rightarrow> (hs @ l) # ls)"
  using assms
proof (induction hs)
  case Nil
  show ?case by (simp split: list.splits)
next
  case (Cons h hs)
  then have "\<not> is_line_terminator h" using hash_not_lt by simp
  with Cons show ?case by (simp split: list.splits)
qed

lemma lines_of_first:
  "lines_of s = l # ls \<Longrightarrow> s = l @ concat ls \<and> l \<noteq> [] \<and> (ls = [] \<or> is_line_terminator (last l))"
proof (induction s arbitrary: l ls)
  case Nil
  then show ?case by simp
next
  case (Cons c cs)
  show ?case
  proof (cases "is_line_terminator c")
    case True
    with Cons.prems have l: "l = [c]" and ls: "ls = lines_of cs" by simp_all
    have "concat (lines_of cs) = cs"
    proof (cases "lines_of cs")
      case Nil
      then show ?thesis by (cases cs) (simp_all split: if_splits list.splits)
    next
      case (Cons a as)
      from Cons.IH[OF this] show ?thesis using Cons by simp
    qed
    with l ls True show ?thesis by simp
  next
    case False
    show ?thesis
    proof (cases "lines_of cs")
      case Nil
      then have "cs = []" by (cases cs) (simp_all split: if_splits list.splits)
      with Nil False Cons.prems show ?thesis by auto
    next
      case (Cons a as)
      from Cons.IH[OF this] have "cs = a @ concat as" "a \<noteq> []" "as = [] \<or> is_line_terminator (last a)"
        by simp_all
      moreover from Cons False Cons.prems have "l = c # a" "ls = as" by simp_all
      ultimately show ?thesis by simp
    qed
  qed
qed

lemma match_header_first_line:
  assumes "lines_of s = l # ls" and "match_header s = None"
  shows "match_header l = None"
proof (cases "ls = []")
  case True
  with lines_of_first[OF assms(1)] assms(2) show ?thesis by simp
next
  case False
  with lines_of_first[OF assms(1)] have s: "s = l @ concat ls" and "l \<noteq> []" and "is_line_terminator (last l)"
    by simp_all
  then have "last l \<in> set l" "last l \<noteq> hash" using hash_not_lt by auto
  then have "match_header (l @ concat ls) = map_option (\<lambda>(w, r). (w, r @ concat ls)) (match_header l)"
    by (intro match_header_append) blast
  with assms(2) s show ?thesis by simp
qed

lemma split_refines:
  "js_split_aux prev acc s =
     (if at_line_start prev then segments_spec acc (lines_of s)
      else (case lines_of s of [] \<Rightarrow> [acc] | l # ls \<Rightarrow> segments_spec (acc @ l) ls))"
proof (induction prev acc s rule: js_split_aux.induct)
  case (1 prev acc)
  show ?case by simp
next
  case (2 prev acc c cs)
  let ?m = "if at_line_start prev then match_header (c # cs) else None"
  show ?case
  proof (cases ?m)
    case None
    then have lhs: "js_split_aux prev acc (c # cs) = js_split_aux (Some c) (acc @ [c]) cs"
      by simp
    note IH = "2.IH"(1)[OF None]
    obtain l ls where lns: "lines_of (c # cs) = l # ls"
      by (cases "lines_of (c # cs)") (simp_all split: if_splits list.splits)
    have step: "segments_spec (acc @ l) ls = js_split_aux (Some c) (acc @ [c]) cs"
      using lns IH by (auto simp: at_line_start_def split: if_splits list.splits)
    show ?thesis
    proof (cases "at_line_start prev")
      case True
      with None have "match_header (c # cs) = None" by simp
      from match_header_first_line[OF lns this] have "match_header l = None" .
      with True lns lhs step show ?thesis by (simp add: header_line_match)
    next
      case False
      with lns lhs step show ?thesis by simp
    qed
  next
    case (Some x)
    obtain w r where x: "x = (w, r)" by (cases x)
    from Some x have als: "at_line_start prev" and mh: "match_header (c # cs) = Some (w, r)"
      by (simp_all split: if_splits)
    from Some x have lhs: "js_split_aux prev acc (c # cs) = acc # js_split_aux (Some w) [] r"
      by simp
    note IH = "2.IH"(2)[OF Some x[symmetric]]
    from match_header_elim[OF mh] obtain hs where
      s: "c # cs = hs @ w # r" and hs: "hs \<noteq> []" "\<forall>h\<in>set hs. h = hash" and w: "is_space w"
      by blast
    obtain l ls where lw: "lines_of (w # r) = l # ls"
      by (cases "lines_of (w # r)") (simp_all split: if_splits list.splits)
    then obtain x where l: "l = w # x"
      by (auto split: if_splits list.splits)
    from lines_of_hashes[OF hs(2), of w r] lw s
    have lns: "lines_of (c # cs) = (hs @ l) # ls" by simp
    have m: "match_header (hs @ l) = Some (w, x)"
      unfolding l using hs w by (rule match_header_intro)
    have "segments_spec x ls = js_split_aux (Some w) [] r"
      using lw l IH by (auto simp: at_line_start_def split: if_splits list.splits)
    with als lns m lhs show ?thesis by (simp add: header_line_match)
  qed
qed

subsection \<open>A headed section becomes a segment\<close>





subsection \<open>Evaluating the chunker\<close>

lemmas text_defs = to_js_def hash_def is_space_def is_white_space_def is_line_terminator_def
  at_line_start_def match_header_def trim_def js_split_def chunk_def

subsection \<open>The chunker and its description by lines\<close>

lemma concat_lines_of: "concat (lines_of s) = s"
  by (induction s) (auto split: list.splits)

lemma segments_spec_plain:
  "\<forall>l\<in>set ls. header_line l = None \<Longrightarrow> segments_spec cur ls = [cur @ concat ls]"
  by (induction ls arbitrary: cur) simp_all

lemma header_line_no_hash: "hash \<notin> set l \<Longrightarrow> header_line l = None"
  by (cases l) (auto simp: header_line_def)

lemma js_split_lines: "js_split s = header_segments s"
  by (simp add: js_split_def header_segments_def split_refines at_line_start_def)

lemma chunk_plain:
  assumes "\<forall>l\<in>set (lines_of content). header_line l = None"
  shows "chunk content = (if 50 < length (trim content) then [trim content] else [])"
proof -
  from segments_spec_plain[OF assms, of "[]"] have "js_split content = [content]"
    by (simp add: js_split_lines header_segments_def concat_lines_of)
  then show ?thesis by (simp add: chunk_def)
qed

lemma chunk_blank:
  assumes "\<forall>c\<in>set content. is_space c"
  shows "chunk content = []"
proof -
  have "\<forall>l\<in>set (lines_of content). header_line l = None"
  proof
    fix l assume "l \<in> set (lines_of content)"
    then have "set l \<subseteq> set (concat (lines_of content))" by auto
    with assms have "\<forall>c\<in>set l. is_space c" by (auto simp: concat_lines_of)
    then have "hash \<notin> set l" using hash_not_space by blast
    then show "header_line l = None" by (rule header_line_no_hash)
  qed
  moreover from assms have "trim content = []"
    by (auto simp: trim_def dest: set_dropWhileD)
  ultimately show ?thesis by (simp add: chunk_plain)
qed

text \<open>
  Claim C1, as amended. For every document text, \<open>chunk\<close> returns, in document order,
  the segments obtained by cutting the text at its header lines (lines that begin with one
  or more hashes followed by a whitespace character; the marker is not part of a segment),
  trimming each segment, and keeping those longer than 50 code units: a segment of
  exactly 50 is dropped too. A text without header lines is one trimmed segment under the
  same rule, and an empty or whitespace-only text gives no chunk.
\<close>

theorem chunk_by_header_lines:
  "chunk content = filter (\<lambda>seg. 50 < length seg) (map trim (header_segments content))
   \<and> ((\<forall>l\<in>set (lines_of content). header_line l = None) \<longrightarrow>
        chunk content = (if 50 < length (trim content) then [trim content] else []))
   \<and> ((\<forall>c\<in>set content. is_space c) \<longrightarrow> chunk content = [])"
proof (intro conjI impI)
  show "chunk content = filter (\<lambda>seg. 50 < length seg) (map trim (header_segments content))"
    by (simp add: chunk_def js_split_lines)
next
  assume "\<forall>l\<in>set (lines_of content). header_line l = None"
  then show "chunk content = (if 50 < length (trim content) then [trim content] else [])"
    by (rule chunk_plain)
next
  assume "\<forall>c\<in>set content. is_space c"
  then show "chunk content = []"
    by (rule chunk_blank)
qed

theorem chunk_by_header_lines_witness:
  "list_all (\<lambda>l. header_line l = None) (lines_of manual_section)
   \<and> chunk manual_section = [manual_section]
   \<and> list_all is_space blank
   \<and> chunk blank = []
   \<and> chunk manual_guide = filter (\<lambda>seg. 50 < length seg) (map trim (header_segments manual_guide))"
proof -
  have a: "\<forall>l\<in>set (lines_of manual_section). header_line l = None"
    by (simp add: manual_section_def to_js_def hash_def is_line_terminator_def header_line_def)
  have b: "\<forall>c\<in>set blank. is_space c"
    by (simp add: blank_def to_js_def is_space_def is_white_space_def is_line_terminator_def)
  have c: "trim manual_section = manual_section"
    by (simp add: manual_section_def text_defs)
  have d: "length manual_section = 63"
    by (simp add: manual_section_def to_js_def)
  from a chunk_by_header_lines[of manual_section]
  have "chunk manual_section = (if 50 < length (trim manual_section) then [trim manual_section] else [])"
    by blast
  with c d have e: "chunk manual_section = [manual_section]" by simp
  from b chunk_by_header_lines[of blank]
  have f: "chunk blank = []" by blast
  from chunk_by_header_lines[of manual_guide]
  have g: "chunk manual_guide = filter (\<lambda>seg. 50 < length seg) (map trim (header_segments manual_guide))"
    by blast
  from a b have "list_all (\<lambda>l. header_line l = None) (lines_of manual_section)"
    and "list_all is_space blank"
    by (simp_all add: list_all_iff)
  with e f g show ?thesis by blast
qed

text \<open>
  The claim as first worded drops only segments shorter than 50 (\<open>chunk_spec\<close>); a text of
  exactly 50 code units tells the two apart.
\<close>

theorem chunk_fifty_counterexample:
  "length fifty = 50 \<and> chunk_spec fifty = [fifty] \<and> chunk fifty = []"
  by (simp add: fifty_def chunk_spec_def header_segments_def header_line_def text_defs)









section \<open>Properties of the retrieval system\<close>

subsection \<open>The corpus of the examples\<close>

lemma chunk_scenario_guide: "chunk scenario_guide = []"
  by (simp add: scenario_guide_def text_defs)

lemma chunk_scenario_notes: "chunk scenario_notes = []"
  by (simp add: scenario_notes_def text_defs)

lemma chunk_manual_guide: "chunk manual_guide = [manual_section]"
  by (simp add: manual_guide_def manual_section_def text_defs)

lemma length_manual_section: "length manual_section = 63"
  by (simp add: manual_section_def to_js_def)

lemma file_names: "guide_md \<noteq> notes_md" "notes_md \<noteq> guide_md"
  by (simp_all add: guide_md_def notes_md_def to_js_def)

lemma corpus_env_fields:
  "lancedb_connect (corpus_env files) = None"
  "load_pipeline (corpus_env files) = None"
  "embed (corpus_env files) = (\<lambda>t. Inr (int (length t)))"
  "glob_md (corpus_env files) = Inr (map fst files)"
  "table_names (corpus_env files) = lance_table_names"
  "drop_table (corpus_env files) = lance_drop"
  "create_table (corpus_env files) = lance_create"
  "open_table (corpus_env files) = lance_open"
  "nearest (corpus_env files) = lance_nearest"
  by (simp_all add: corpus_env_def)

lemma gather_manual: "gather (corpus_env manual_corpus) = Inr manual_rows"
  by (simp add: gather_def corpus_env_def manual_corpus_def manual_rows_def file_names
      chunk_manual_guide chunk_scenario_notes length_manual_section)

lemma manual_rows_length: "length manual_rows = 1"
  by (simp add: manual_rows_def)

lemma ingest_manual:
  "ingest (corpus_env manual_corpus) new_rag empty_world = (Inr 1, ready_rag, manual_world)"
  by (simp add: ingest_def gather_manual manual_rows_length replace_table_def Let_def
      new_rag_def ready_rag_def empty_world_def manual_world_def
      corpus_env_fields lance_drop_def lance_create_def)

subsection \<open>A corpus without eligible chunks\<close>

lemma read_files_no_chunks:
  "\<forall>f\<in>set files. \<exists>c. read_file env f = Inr c \<and> chunk c = [] \<Longrightarrow>
     read_files env data files = Inr data"
  by (induction files arbitrary: data) auto

lemma ingest_no_chunks:
  assumes "db st \<or> lancedb_connect env = None"
    and "embedder st \<or> load_pipeline env = None"
    and "glob_md env = Inr files"
    and "\<forall>f\<in>set files. \<exists>c. read_file env f = Inr c \<and> chunk c = []"
  shows "ingest env st w = (Inl NoContent, st\<lparr>db := True, embedder := True\<rparr>, w)"
proof -
  from assms(3,4) have g: "gather env = Inr []"
    by (simp add: gather_def read_files_no_chunks)
  from assms(1) have c: "(if db st then None else lancedb_connect env) = None"
    by auto
  from assms(2) have p: "(if embedder (st\<lparr>db := True\<rparr>) then None else load_pipeline env) = None"
    by auto
  show ?thesis
    unfolding ingest_def Let_def c p g by simp
qed

lemma ingest_scenario:
  "ingest (corpus_env scenario_corpus) st w = (Inl NoContent, st\<lparr>db := True, embedder := True\<rparr>, w)"
proof (rule ingest_no_chunks)
  show "db st \<or> lancedb_connect (corpus_env scenario_corpus) = None"
    and "embedder st \<or> load_pipeline (corpus_env scenario_corpus) = None"
    and "glob_md (corpus_env scenario_corpus) = Inr [guide_md, notes_md]"
    by (simp_all add: corpus_env_def scenario_corpus_def)
  show "\<forall>f\<in>set [guide_md, notes_md].
      \<exists>c. read_file (corpus_env scenario_corpus) f = Inr c \<and> chunk c = []"
    by (simp add: corpus_env_def scenario_corpus_def file_names chunk_scenario_guide
        chunk_scenario_notes)
qed

text \<open>
  Claim C2. When the corpus yields no chunk (\<^verbatim>\<open>glob\<close> finds no file, or every file it
  finds is readable and chunks to nothing), \<open>ingest\<close> ends with the "no content" error.
  The world comes back as it was: the tables are the same and the journal has no new
  entry, so neither \<^verbatim>\<open>dropTable\<close> nor \<^verbatim>\<open>createTable\<close> was called. Of the object only
  the two handles are set.
\<close>

theorem ingest_empty_corpus:
  assumes "db st \<or> lancedb_connect env = None"
    and "embedder st \<or> load_pipeline env = None"
    and "glob_md env = Inr files"
    and "\<forall>f\<in>set files. \<exists>c. read_file env f = Inr c \<and> chunk c = []"
  shows "ingest env st w = (Inl NoContent, st\<lparr>db := True, embedder := True\<rparr>, w)"
proof -
  from assms(4) have "read_files env [] files = Inr []"
    by (rule read_files_no_chunks)
  with assms(3) have data: "gather env = Inr []"
    by (simp add: gather_def)
  from assms(1) have connected: "(if db st then None else lancedb_connect env) = None"
    by auto
  from assms(2) have loaded:
    "(if embedder (st\<lparr>db := True\<rparr>) then None else load_pipeline env) = None"
    by auto
  show ?thesis
    unfolding ingest_def Let_def connected loaded data by simp
qed

theorem ingest_empty_corpus_witness:
  "ingest (corpus_env [(notes_md, scenario_notes)]) new_rag indexed_world =
     (Inl NoContent, \<lparr>db = True, embedder = True, ready = False\<rparr>, indexed_world)"
proof -
  let ?env = "corpus_env [(notes_md, scenario_notes)]"
  have 1: "db new_rag \<or> lancedb_connect ?env = None"
    and 2: "embedder new_rag \<or> load_pipeline ?env = None"
    and 3: "glob_md ?env = Inr [notes_md]"
    by (simp_all add: corpus_env_def)
  have 4: "\<forall>f\<in>set [notes_md]. \<exists>c. read_file ?env f = Inr c \<and> chunk c = []"
    by (simp add: corpus_env_def chunk_scenario_notes)
  from ingest_empty_corpus[OF 1 2 3 4, of indexed_world]
  show ?thesis by (simp add: new_rag_def)
qed

text \<open>
  Claim C8, as amended. In the corpus of \<^verbatim>\<open>guide.md\<close> = \<^verbatim>\<open>"# Setup\nRun the installer and accept defaults."\<close>
  and \<^verbatim>\<open>notes.md\<close> = \<^verbatim>\<open>"# X\nshort"\<close> the one non-empty segment of \<^verbatim>\<open>guide.md\<close> has 44
  code units after trimming, not more than 50. Neither file yields a chunk, and \<open>ingest\<close>
  ends with the "no content" error and writes nothing.
\<close>

theorem scenario_yields_no_chunk:
  assumes "db st \<or> lancedb_connect env = None"
    and "embedder st \<or> load_pipeline env = None"
    and "glob_md env = Inr files" and "set files = {guide_md, notes_md}"
    and "read_file env guide_md = Inr scenario_guide"
    and "read_file env notes_md = Inr scenario_notes"
  shows "map length (map trim (js_split scenario_guide)) = [0, 44]
     \<and> chunk scenario_guide = [] \<and> chunk scenario_notes = []
     \<and> ingest env st w = (Inl NoContent, st\<lparr>db := True, embedder := True\<rparr>, w)"
proof -
  from assms(4,5,6) have "\<forall>f\<in>set files. \<exists>c. read_file env f = Inr c \<and> chunk c = []"
    by (simp add: chunk_scenario_guide chunk_scenario_notes)
  from ingest_no_chunks[OF assms(1,2,3) this]
  have "ingest env st w = (Inl NoContent, st\<lparr>db := True, embedder := True\<rparr>, w)" .
  moreover have "map length (map trim (js_split scenario_guide)) = [0, 44]"
    by (simp add: scenario_guide_def text_defs)
  ultimately show ?thesis
    by (simp add: chunk_scenario_guide chunk_scenario_notes)
qed

theorem scenario_yields_no_chunk_witness:
  "ingest (corpus_env scenario_corpus) ready_rag library_world = (Inl NoContent, ready_rag, library_world)"
proof -
  let ?env = "corpus_env scenario_corpus"
  have 1: "db ready_rag \<or> lancedb_connect ?env = None"
    and 2: "embedder ready_rag \<or> load_pipeline ?env = None"
    and 3: "glob_md ?env = Inr [guide_md, notes_md]"
    and 4: "set [guide_md, notes_md] = {guide_md, notes_md}"
    and 5: "read_file ?env guide_md = Inr scenario_guide"
    and 6: "read_file ?env notes_md = Inr scenario_notes"
    by (simp_all add: corpus_env_def scenario_corpus_def file_names)
  from scenario_yields_no_chunk[OF 1 2 3 4 5 6, of library_world]
  show ?thesis by (simp add: ready_rag_def)
qed

text \<open>The claim as first worded expects \<open>Inr 1\<close> and one row with source \<^verbatim>\<open>guide.md\<close>.\<close>

theorem scenario_counterexample:
  "ingest (corpus_env scenario_corpus) new_rag empty_world =
     (Inl NoContent, \<lparr>db = True, embedder = True, ready = False\<rparr>, empty_world)"
  by (simp add: ingest_def gather_def corpus_env_def scenario_corpus_def new_rag_def
      file_names chunk_scenario_guide chunk_scenario_notes)

subsection \<open>Readiness\<close>

text \<open>
  Claim C3, as amended. \<open>search\<close> ends with the "not ready" error exactly when the flag
  \<open>ready\<close> is false; the store is not consulted for that. The flag is false in a new
  object. \<open>initialize\<close> sets it when the store already lists a \<^verbatim>\<open>documentation\<close> table,
  whoever built it, and leaves it alone otherwise. A successful \<open>ingest\<close> sets it, and
  from then on \<open>isReady\<close> holds and \<open>search\<close> no longer ends with "not ready"; an
  \<open>ingest\<close> that fails leaves it as it was, so that after a failed \<open>ingest\<close> on an
  object that was not ready \<open>search\<close> still ends with "not ready".
\<close>

theorem search_ready_flag:
  "(search env query limit st w = Inl NotReady \<longleftrightarrow> \<not> ready st)
   \<and> \<not> isReady new_rag
   \<and> (ingest env st w = (Inr n, st', w') \<longrightarrow>
        isReady st' \<and> search env' query limit st' w'' \<noteq> Inl NotReady)
   \<and> (isReady (fst (snd (ingest env st w))) \<longleftrightarrow>
        ready st \<or> (\<exists>k. fst (ingest env st w) = Inr k))
   \<and> (isReady (snd (initialize env st w)) \<longleftrightarrow>
        ready st \<or> (lancedb_connect env = None \<and> load_pipeline env = None \<and>
          (\<exists>names. table_names env (store w) = Inr names \<and> documentation \<in> set names)))"
proof (intro conjI impI)
  show "isReady (fst (snd (ingest env st w))) \<longleftrightarrow>
        ready st \<or> (\<exists>k. fst (ingest env st w) = Inr k)"
    by (auto simp: isReady_def ingest_def Let_def split: option.splits sum.splits prod.splits)
  show "search env query limit st w = Inl NotReady \<longleftrightarrow> \<not> ready st"
    by (auto simp: search_def split: sum.splits)
  show "\<not> isReady new_rag"
    by (simp add: isReady_def new_rag_def)
  show "isReady (snd (initialize env st w)) \<longleftrightarrow>
        ready st \<or> (lancedb_connect env = None \<and> load_pipeline env = None \<and>
          (\<exists>names. table_names env (store w) = Inr names \<and> documentation \<in> set names))"
    by (auto simp: isReady_def initialize_def Let_def split: option.splits sum.splits)
next
  assume a: "ingest env st w = (Inr n, st', w')"
  then have "ready st'"
    by (auto simp: ingest_def Let_def split: option.splits sum.splits if_splits prod.splits)
  then show "isReady st'" by (simp add: isReady_def)
  from \<open>ready st'\<close> show "search env' query limit st' w'' \<noteq> Inl NotReady"
    by (auto simp: search_def split: sum.splits)
qed

theorem search_ready_flag_witness:
  "search (corpus_env manual_corpus) (to_js ''install'') 3 new_rag empty_world = Inl NotReady
   \<and> isReady ready_rag
   \<and> search (corpus_env manual_corpus) (to_js ''install'') 3 ready_rag manual_world \<noteq> Inl NotReady
   \<and> fst (ingest (corpus_env scenario_corpus) new_rag empty_world) = Inl NoContent
   \<and> \<not> isReady (fst (snd (ingest (corpus_env scenario_corpus) new_rag empty_world)))
   \<and> search (corpus_env manual_corpus) (to_js ''install'') 3
         (fst (snd (ingest (corpus_env scenario_corpus) new_rag empty_world))) empty_world
       = Inl NotReady"
proof -
  let ?env = "corpus_env manual_corpus"
  let ?failed = "fst (snd (ingest (corpus_env scenario_corpus) new_rag empty_world))"
  have failure: "fst (ingest (corpus_env scenario_corpus) new_rag empty_world) = Inl NoContent"
    by (simp add: ingest_scenario)
  note u = search_ready_flag[of "corpus_env scenario_corpus" "to_js ''install''" 3 new_rag
      empty_world 1 ready_rag manual_world ?env manual_world]
  from u failure have not_ready: "\<not> isReady ?failed"
    by (simp add: new_rag_def)
  note v = search_ready_flag[of ?env "to_js ''install''" 3 ?failed
      empty_world 1 ready_rag manual_world ?env manual_world]
  from v not_ready have still: "search ?env (to_js ''install'') 3 ?failed empty_world = Inl NotReady"
    by (simp add: isReady_def)
  note t = search_ready_flag[of ?env "to_js ''install''" 3 new_rag empty_world 1 ready_rag manual_world ?env manual_world]
  have "\<not> ready new_rag" by (simp add: new_rag_def)
  with t have a: "search ?env (to_js ''install'') 3 new_rag empty_world = Inl NotReady" by blast
  from t ingest_manual have "isReady ready_rag \<and> search ?env (to_js ''install'') 3 ready_rag manual_world \<noteq> Inl NotReady"
    by blast
  with a failure not_ready still show ?thesis by blast
qed

text \<open>
  The claim as first worded ties readiness to an index built in this process. Here no
  \<open>ingest\<close> has run (the journal is empty), \<open>initialize\<close> finds the table an earlier
  process left, and \<open>search\<close> answers.
\<close>

theorem started_on_old_index_counterexample:
  "journal indexed_world = []
   \<and> initialize (corpus_env manual_corpus) new_rag indexed_world = (Inr (), ready_rag)
   \<and> search (corpus_env manual_corpus) (to_js ''install'') 3 ready_rag indexed_world =
       Inr [\<lparr>text' = fifty, source = notes_md, score = 1849\<rparr>]"
  by (simp add: indexed_world_def initialize_def search_def new_rag_def ready_rag_def
      corpus_env_def lance_table_names_def lance_open_def lance_nearest_def lance_limit_def
      with_distance_def to_result_def old_rows_def to_js_def fifty_def)


subsection \<open>The limit of a search\<close>








subsection \<open>Replacing the table\<close>











subsection \<open>What the drop discards\<close>

lemma embed_chunks_cong:
  "embed env' = embed env \<Longrightarrow> embed_chunks env' file data cs = embed_chunks env file data cs"
  by (induction cs arbitrary: data) (simp_all split: sum.splits)

lemma read_files_cong:
  "embed env' = embed env \<Longrightarrow> read_file env' = read_file env \<Longrightarrow>
     read_files env' data files = read_files env data files"
  by (induction files arbitrary: data) (simp_all add: embed_chunks_cong[of env' env] split: sum.splits)

lemma gather_cong:
  "embed env' = embed env \<Longrightarrow> read_file env' = read_file env \<Longrightarrow> glob_md env' = glob_md env \<Longrightarrow>
     gather env' = gather env"
  by (simp add: gather_def read_files_cong[of env' env] split: sum.splits)

lemma failing_drop_env_fields:
  "lancedb_connect failing_drop_env = None"
  "load_pipeline failing_drop_env = None"
  "drop_table failing_drop_env = (\<lambda>name s. (Some IOFailure, s))"
  "create_table failing_drop_env = lance_create"
  by (simp_all add: failing_drop_env_def corpus_env_fields)

lemma failing_create_env_fields:
  "lancedb_connect failing_create_env = None"
  "load_pipeline failing_create_env = None"
  "drop_table failing_create_env = lance_drop"
  "create_table failing_create_env = (\<lambda>name rows s. (Some IOFailure, s))"
  by (simp_all add: failing_create_env_def corpus_env_fields)

text \<open>
  Claim C6 does not hold of the source: the \<^verbatim>\<open>catch\<close> around \<^verbatim>\<open>dropTable\<close> has no
  condition, although its comment reads "Ignore if table doesn't exist". When
  \<^verbatim>\<open>dropTable\<close> meets an I/O failure on an existing table, \<open>ingest\<close> goes on to
  \<^verbatim>\<open>createTable\<close> and the caller sees that call's "table exists" instead; on an empty
  store the run even succeeds. The I/O failure reaches nobody.
\<close>

theorem ingest_swallows_drop_failure:
  "drop_table failing_drop_env documentation (store indexed_world) = (Some IOFailure, store indexed_world)
   \<and> fst (ingest failing_drop_env new_rag indexed_world) = Inl (Thrown TableExists)
   \<and> fst (ingest failing_drop_env new_rag empty_world) = Inr 1"
proof -
  have "gather failing_drop_env = gather (corpus_env manual_corpus)"
    by (rule gather_cong) (simp_all add: failing_drop_env_def)
  then have g: "gather failing_drop_env = Inr manual_rows"
    by (simp add: gather_manual)
  show ?thesis
    by (simp add: ingest_def g manual_rows_length Let_def replace_table_def new_rag_def
        failing_drop_env_fields indexed_world_def empty_world_def lance_create_def)
qed

subsection \<open>Ingesting twice\<close>





subsection \<open>The flag is never reset\<close>

lemma initialize_keeps_ready: "ready st \<Longrightarrow> ready (snd (initialize env st w))"
  by (simp add: initialize_def Let_def split: option.splits sum.splits)

lemma ingest_keeps_ready: "ready st \<Longrightarrow> ready (fst (snd (ingest env st w)))"
  by (simp add: ingest_def Let_def split: option.splits sum.splits prod.splits)

lemma step_keeps_ready: "ready (fst s) \<Longrightarrow> ready (fst (step env rq s))"
  by (cases s; cases rq) (simp_all add: initialize_keeps_ready ingest_keeps_ready)

lemma run_keeps_ready: "ready (fst s) \<Longrightarrow> ready (fst (run calls s))"
proof (induction calls arbitrary: s)
  case Nil
  then show ?case by simp
next
  case (Cons a calls)
  obtain env rq where a: "a = (env, rq)" by (cases a)
  from Cons.prems have "ready (fst (step env rq s))" by (rule step_keeps_ready)
  from Cons.IH[OF this] a show ?case by simp
qed

text \<open>
  Claim C10. Once \<open>isReady\<close> holds it holds after any sequence of calls on the object, in
  whatever environments they run; in particular after a failing \<open>ingest\<close>.
\<close>

theorem ready_never_reset:
  assumes "isReady st"
  shows "isReady (fst (run calls (st, w))) \<and> isReady (fst (snd (ingest env st w)))"
  using assms run_keeps_ready[of "(st, w)" calls] ingest_keeps_ready[of st env w]
  by (simp add: isReady_def)

lemma ingest_failing_create:
  "ingest failing_create_env ready_rag indexed_world =
     (Inl (Thrown IOFailure), ready_rag,
      \<lparr>store = [],
       journal = [(DropTable documentation, []), (CreateTable documentation manual_rows, [])]\<rparr>)"
proof -
  have "gather failing_create_env = gather (corpus_env manual_corpus)"
    by (rule gather_cong) (simp_all add: failing_create_env_def)
  then have g: "gather failing_create_env = Inr manual_rows"
    by (simp add: gather_manual)
  show ?thesis
    by (simp add: ingest_def g manual_rows_length Let_def replace_table_def ready_rag_def
        failing_create_env_fields indexed_world_def lance_drop_def)
qed

text \<open>
  The witness run: \<open>createTable\<close> fails after the old table was dropped. The store is left
  without a table, and the flag stays set.
\<close>

theorem ready_never_reset_witness:
  "isReady ready_rag
   \<and> fst (ingest failing_create_env ready_rag indexed_world) = Inl (Thrown IOFailure)
   \<and> store (snd (snd (ingest failing_create_env ready_rag indexed_world))) = []
   \<and> isReady (fst (snd (ingest failing_create_env ready_rag indexed_world)))
   \<and> isReady (fst (run [(corpus_env scenario_corpus, Ingest), (failing_create_env, Ingest),
        (failing_create_env, Initialize), (failing_create_env, Search (to_js ''install'') 3)]
        (ready_rag, indexed_world)))"
proof -
  have r: "isReady ready_rag" by (simp add: isReady_def ready_rag_def)
  from ready_never_reset[OF r, of "[(corpus_env scenario_corpus, Ingest), (failing_create_env, Ingest),
        (failing_create_env, Initialize), (failing_create_env, Search (to_js ''install'') 3)]"
      indexed_world failing_create_env]
  have t: "isReady (fst (run [(corpus_env scenario_corpus, Ingest), (failing_create_env, Ingest),
        (failing_create_env, Initialize), (failing_create_env, Search (to_js ''install'') 3)]
        (ready_rag, indexed_world)))"
    and u: "isReady (fst (snd (ingest failing_create_env ready_rag indexed_world)))"
    by blast+
  have f: "fst (ingest failing_create_env ready_rag indexed_world) = Inl (Thrown IOFailure)"
    and g: "store (snd (snd (ingest failing_create_env ready_rag indexed_world))) = []"
    unfolding ingest_failing_create by simp_all
  from r f g u t show ?thesis by blast
qed

end
